theory Spec2Isabelle
  imports Main "HOL-Library.Sublist" "HOL-Library.AList"
begin

section \<open>Python string primitives used by mprisctl.py\<close>

text \<open>
  Strings are character lists.  The three primitives below are the ones the
  formatting helpers of \<^verbatim>\<open>mprisctl.py\<close> call: \<^verbatim>\<open>str.find\<close>,
  \<^verbatim>\<open>str.replace\<close> and slicing with an open end.
\<close>

text \<open>\<^verbatim>\<open>s.find(sub)\<close>: the lowest index where \<open>sub\<close> occurs, or \<open>-1\<close>.\<close>

fun py_find :: "string \<Rightarrow> string \<Rightarrow> int" where
  "py_find [] sub = (if sub = [] then 0 else - 1)"
| "py_find (c # cs) sub =
     (if prefix sub (c # cs) then 0
      else (let r = py_find cs sub in if r < 0 then - 1 else r + 1))"

text \<open>
  \<^verbatim>\<open>s.replace(old, new)\<close>: every non-overlapping occurrence, scanning from the
  left.  With an empty \<open>old\<close> Python inserts \<open>new\<close> before every character and
  at the end.
\<close>

function py_replace :: "string \<Rightarrow> string \<Rightarrow> string \<Rightarrow> string" where
  "py_replace [] old new = (if old = [] then new else [])"
| "py_replace (c # cs) old new =
     (if old = [] then new @ c # py_replace cs old new
      else if prefix old (c # cs)
           then new @ py_replace (drop (length old) (c # cs)) old new
           else c # py_replace cs old new)"
  by pat_completeness auto
termination
  by (relation "measure (\<lambda>(s, old, new). length s)") auto

text \<open>\<^verbatim>\<open>s[:i]\<close> and \<^verbatim>\<open>s[j:]\<close>; a negative index counts from the end.\<close>

definition py_slice_to :: "string \<Rightarrow> int \<Rightarrow> string" where
  "py_slice_to s i =
     (if i < 0 then take (nat (int (length s) + i)) s else take (nat i) s)"

definition py_slice_from :: "string \<Rightarrow> int \<Rightarrow> string" where
  "py_slice_from s j =
     (if j < 0 then drop (nat (int (length s) + j)) s else drop (nat j) s)"

section \<open>Values, errors and the remote peer\<close>

text \<open>
  The values stored under the metadata keys: a D-Bus string (title, album) or
  a D-Bus array of strings (artist).
\<close>

datatype pyval = PStr string | PList "string list"

datatype error = IndexError | KeyError | AttributeError

text \<open>
  The answers of the peer to the two \<^verbatim>\<open>Properties.Get\<close> calls that
  \<^verbatim>\<open>MPRISPlayer.get\<close> issues; \<open>None\<close> is a raised \<^verbatim>\<open>dbus.DBusException\<close>.
\<close>

record remote =
  get_Metadata :: "(string \<times> pyval) list option"
  get_PlaybackStatus :: "string option"

text \<open>
  The \<^verbatim>\<open>changed_props\<close> dictionary of a \<^verbatim>\<open>PropertiesChanged\<close> signal, one
  field per key the handler looks at; \<open>None\<close> is an absent key.
  \<open>cp_others\<close> are the names of the remaining keys.
\<close>

record changed_props =
  cp_Position :: "int option"
  cp_Metadata :: "(string \<times> pyval) list option"
  cp_PlaybackStatus :: "string option"
  cp_others :: "string list"

text \<open>Truth value of the dictionary: it is non-empty.\<close>

definition cp_truthy :: "changed_props \<Rightarrow> bool" where
  "cp_truthy cp \<longleftrightarrow>
     cp_Position cp \<noteq> None \<or> cp_Metadata cp \<noteq> None \<or>
     cp_PlaybackStatus cp \<noteq> None \<or> cp_others cp \<noteq> []"

section \<open>Template helpers\<close>

text \<open>
  \<^verbatim>\<open>replace_tag(original, value_dict)\<close>.  The first argument is the running
  \<^verbatim>\<open>result\<close>; the dictionary is walked in key order.  \<^verbatim>\<open>value[0]\<close> on an empty
  list raises \<^verbatim>\<open>IndexError\<close>.
\<close>

fun replace_tag :: "string \<Rightarrow> (string \<times> pyval) list \<Rightarrow> error + string" where
  "replace_tag result [] = Inr result"
| "replace_tag result ((tag_name, PList []) # rest) = Inl IndexError"
| "replace_tag result ((tag_name, PList (v # vs)) # rest) =
     replace_tag (py_replace result (''{{'' @ tag_name @ ''}}'') v) rest"
| "replace_tag result ((tag_name, PStr v) # rest) =
     replace_tag (py_replace result (''{{'' @ tag_name @ ''}}'') v) rest"

text \<open>\<^verbatim>\<open>replace_block(original, block_name, replace_str=None)\<close>.\<close>

definition replace_block :: "string \<Rightarrow> string \<Rightarrow> string option \<Rightarrow> string" where
  "replace_block original block_name replace_str =
     (let block_begin = ''{{'' @ block_name @ ''}}'';
          block_end = ''{{/'' @ block_name @ ''}}'';
          start_pos = py_find original block_begin;
          end_pos = py_find original block_end
      in case replace_str of
           Some r \<Rightarrow>
             py_slice_to original start_pos @ r @
             py_slice_from original (end_pos + int (length block_end))
         | None \<Rightarrow>
             py_replace (py_replace original block_begin '''') block_end '''')"

section \<open>MPRISPlayer\<close>

text \<open>
  The fields of \<^verbatim>\<open>MPRISPlayer\<close> that the methods read or write.
  \<open>connection\<close> is \<open>None\<close> before the first \<^verbatim>\<open>connect\<close>, \<open>Some True\<close>
  while the signal match is installed and \<open>Some False\<close> once it has been
  removed.  \<open>is_playing\<close> is Python's \<^verbatim>\<open>True\<close>/\<^verbatim>\<open>False\<close>/\<^verbatim>\<open>None\<close>.
\<close>

record player =
  bus_name :: string
  format_string :: string
  connection :: "bool option"
  is_playing :: "bool option"
  metadata :: "(string \<times> pyval) list"
  prev_content :: "string option"

definition connect :: "player \<Rightarrow> player" where
  "connect p = p\<lparr>connection := Some True\<rparr>"

text \<open>\<^verbatim>\<open>self.connection.remove()\<close>; on \<^verbatim>\<open>None\<close> the attribute access raises.\<close>

definition disconnect :: "player \<Rightarrow> error + player" where
  "disconnect p =
     (case connection p of
        None \<Rightarrow> Inl AttributeError
      | Some _ \<Rightarrow> Inr (p\<lparr>connection := Some False\<rparr>))"

text \<open>The mapping of the \<^verbatim>\<open>PlaybackStatus\<close> string used in both branches.\<close>

definition playback_of :: "string \<Rightarrow> bool option" where
  "playback_of s =
     (if s = ''Playing'' then Some True
      else if s = ''Paused'' then Some False
      else None)"

text \<open>
  The loop over \<^verbatim>\<open>changed_props['Metadata']\<close> (source lines 108 to 114):
  \<open>Some\<close> of the new cache when an entry made the method return \<^verbatim>\<open>True\<close>,
  \<open>None\<close> when the loop ran to its end.
\<close>

fun scan_metadata ::
  "(string \<times> pyval) list \<Rightarrow> (string \<times> pyval) list \<Rightarrow> (string \<times> pyval) list option"
where
  "scan_metadata cache [] = None"
| "scan_metadata cache ((key, v) # rest) =
     (let normal_key = drop 6 key
      in if normal_key \<in> set (map fst cache) \<and> map_of cache normal_key \<noteq> Some v
         then Some (AList.update normal_key v cache)
         else scan_metadata cache rest)"

text \<open>
  The loop over \<^verbatim>\<open>self.metadata.keys()\<close> of the full refresh (source lines
  135 to 139).  Assigning to an existing key keeps the key order.
\<close>

definition refresh_metadata ::
  "(string \<times> pyval) list \<Rightarrow> (string \<times> pyval) list \<Rightarrow> (string \<times> pyval) list"
where
  "refresh_metadata raw_metadata cache =
     map (\<lambda>(key, old).
            (key, case map_of raw_metadata (''xesam:'' @ key) of
                    Some v \<Rightarrow> v
                  | None \<Rightarrow> PStr ''''))
         cache"

text \<open>
  \<^verbatim>\<open>update_status(self, changed_props=None)\<close>.  The result is the returned
  flag, the player afterwards and the lines printed.
\<close>

definition update_status ::
  "remote \<Rightarrow> changed_props option \<Rightarrow> player \<Rightarrow> bool \<times> player \<times> string list"
where
  "update_status rem changed p =
     (case (case changed of Some cp \<Rightarrow> if cp_truthy cp then Some cp else None
                          | None \<Rightarrow> None) of
        Some cp \<Rightarrow>
          if cp_Position cp \<noteq> None then (False, p, [])
          else
            (case (case cp_Metadata cp of
                     Some md \<Rightarrow> scan_metadata (metadata p) md
                   | None \<Rightarrow> None) of
               Some cache' \<Rightarrow> (True, p\<lparr>metadata := cache'\<rparr>, [])
             | None \<Rightarrow>
                 (case cp_PlaybackStatus cp of
                    Some s \<Rightarrow> (True, p\<lparr>is_playing := playback_of s\<rparr>, [])
                  | None \<Rightarrow> (False, p, [])))
      | None \<Rightarrow>
          (case get_Metadata rem of
             None \<Rightarrow> (False, p, [''METADATA UNAVAILABLE''])
           | Some raw_metadata \<Rightarrow>
               (let p1 = p\<lparr>metadata := refresh_metadata raw_metadata (metadata p)\<rparr>
                in case get_PlaybackStatus rem of
                     None \<Rightarrow> (False, p1, [''METADATA UNAVAILABLE''])
                   | Some playback \<Rightarrow>
                       (True, p1\<lparr>is_playing := playback_of playback\<rparr>, []))))"

text \<open>
  The string \<^verbatim>\<open>print_status\<close> builds (source lines 160 to 167), before it is
  compared with \<^verbatim>\<open>prev_content\<close>.
\<close>

definition render :: "player \<Rightarrow> error + string" where
  "render p =
     (case replace_tag (format_string p) (metadata p) of
        Inl e \<Rightarrow> Inl e
      | Inr result \<Rightarrow>
          Inr (if is_playing p = Some True
               then replace_block (replace_block result ''playing'' None)
                      ''paused'' (Some '''')
               else replace_block (replace_block result ''playing'' (Some ''''))
                      ''paused'' None))"

text \<open>
  \<^verbatim>\<open>print_status(self)\<close>: the player afterwards and the lines printed, or the
  exception of \<^verbatim>\<open>replace_tag\<close>, raised before anything is written.
\<close>

definition print_status :: "player \<Rightarrow> error + player \<times> string list" where
  "print_status p =
     (case render p of
        Inl e \<Rightarrow> Inl e
      | Inr result \<Rightarrow>
          if Some result \<noteq> prev_content p
          then Inr (p\<lparr>prev_content := Some result\<rparr>, [result])
          else Inr (p, []))"

text \<open>
  \<^verbatim>\<open>on_PropertiesChanged(self, interface, changed_props, invalid_props)\<close>.
  An exception of \<^verbatim>\<open>print_status\<close> leaves the player as \<^verbatim>\<open>update_status\<close>
  made it.
\<close>

definition on_PropertiesChanged ::
  "remote \<Rightarrow> string \<Rightarrow> changed_props \<Rightarrow> string list \<Rightarrow> player
     \<Rightarrow> error \<times> player + player \<times> string list"
where
  "on_PropertiesChanged rem interface cp invalid_props p =
     (if interface = ''org.mpris.MediaPlayer2.Player''
      then (case update_status rem (Some cp) p of
              (updated, p1, out) \<Rightarrow>
                if updated
                then (case print_status p1 of
                        Inl e \<Rightarrow> Inl (e, p1)
                      | Inr (p2, out2) \<Rightarrow> Inr (p2, out @ out2))
                else Inr (p1, out))
      else Inr (p, []))"

text \<open>
  \<^verbatim>\<open>MPRISPlayer.__init__\<close>: the fresh object after the initial
  \<^verbatim>\<open>update_status()\<close>, and the lines that call printed.
\<close>

definition fresh_player :: "string \<Rightarrow> string \<Rightarrow> player" where
  "fresh_player name fmt =
     \<lparr>bus_name = name, format_string = fmt, connection = None,
      is_playing = None,
      metadata = [(''title'', PStr ''''), (''artist'', PList []), (''album'', PStr '''')],
      prev_content = None\<rparr>"

definition MPRISPlayer :: "remote \<Rightarrow> string \<Rightarrow> string \<Rightarrow> player \<times> string list" where
  "MPRISPlayer rem name fmt =
     (case update_status rem None (fresh_player name fmt) of
        (updated, p, out) \<Rightarrow> (p, out))"

section \<open>MPRISManager\<close>

text \<open>
  Player objects live in a store, \<open>objs\<close>; an address is an index into it
  and a new object is appended.  \<open>players\<close> is the insertion-ordered
  dictionary from owner to object, \<open>primary_player\<close> is a reference to an
  object, or \<open>None\<close> for the \<^verbatim>\<open>NonePlayer\<close>, whose methods all do nothing.
  \<open>stdout\<close> collects the lines printed.
\<close>

record manager =
  mgr_format_string :: string
  objs :: "player list"
  players :: "(string \<times> nat) list"
  primary_player :: "nat option"
  stdout :: "string list"

definition is_player_bus :: "string \<Rightarrow> bool" where
  "is_player_bus name \<longleftrightarrow> prefix ''org.mpris.MediaPlayer2'' name"

text \<open>
  \<^verbatim>\<open>add_player(self, bus_name, owner)\<close>: the constructor runs first, then the
  dictionary entry is assigned (an existing key keeps its place).
\<close>

definition add_player :: "remote \<Rightarrow> string \<Rightarrow> string \<Rightarrow> manager \<Rightarrow> manager" where
  "add_player rem name owner m =
     (case MPRISPlayer rem name (mgr_format_string m) of
        (p, out) \<Rightarrow>
          m\<lparr>objs := objs m @ [p],
            players := AList.update owner (length (objs m)) (players m),
            stdout := stdout m @ out\<rparr>)"

text \<open>\<^verbatim>\<open>del self.players[owner]\<close> raises \<^verbatim>\<open>KeyError\<close> on a missing key.\<close>

definition del_player :: "string \<Rightarrow> manager \<Rightarrow> error + manager" where
  "del_player owner m =
     (case map_of (players m) owner of
        None \<Rightarrow> Inl KeyError
      | Some a \<Rightarrow> Inr (m\<lparr>players := AList.delete owner (players m)\<rparr>))"

definition change_owner :: "string \<Rightarrow> string \<Rightarrow> manager \<Rightarrow> error + manager" where
  "change_owner old_owner new_owner m =
     (case map_of (players m) old_owner of
        None \<Rightarrow> Inl KeyError
      | Some temp \<Rightarrow>
          Inr (m\<lparr>players :=
                 AList.update new_owner temp (AList.delete old_owner (players m))\<rparr>))"

text \<open>
  The loop of \<^verbatim>\<open>update_players\<close> over \<^verbatim>\<open>self.players.items()\<close>; the first
  argument is what is left of the items.  \<^verbatim>\<open>isinstance(player.is_playing, bool)\<close>
  holds when \<open>is_playing\<close> is not \<^verbatim>\<open>None\<close>; \<^verbatim>\<open>is\<close> compares addresses.
\<close>

fun update_players_loop :: "(string \<times> nat) list \<Rightarrow> manager \<Rightarrow> error + manager" where
  "update_players_loop [] m = Inr (m\<lparr>stdout := stdout m @ [''NO ACTIVE PLAYERS'']\<rparr>)"
| "update_players_loop ((owner, a) # rest) m =
     (if is_playing (objs m ! a) \<noteq> None
      then (if primary_player m = Some a then Inr m
            else (case primary_player m of
                    None \<Rightarrow>
                      Inr (m\<lparr>objs := (objs m)[a := connect (objs m ! a)],
                             primary_player := Some a\<rparr>)
                  | Some b \<Rightarrow>
                      (case disconnect (objs m ! b) of
                         Inl e \<Rightarrow> Inl e
                       | Inr pb \<Rightarrow>
                           (let os = (objs m)[b := pb]
                            in Inr (m\<lparr>objs := os[a := connect (os ! a)],
                                      primary_player := Some a\<rparr>)))))
      else update_players_loop rest m)"

definition update_players :: "manager \<Rightarrow> error + manager" where
  "update_players m = update_players_loop (players m) m"

text \<open>
  \<^verbatim>\<open>on_NameOwnerChanged(self, name, old_owner, new_owner)\<close>.  An exception
  leaves the manager as it was when it was raised, which is the second
  component of the error.
\<close>

definition on_NameOwnerChanged ::
  "remote \<Rightarrow> string \<Rightarrow> string \<Rightarrow> string \<Rightarrow> manager \<Rightarrow> error \<times> manager + manager"
where
  "on_NameOwnerChanged rem name old_owner new_owner m =
     (if is_player_bus name
      then (case (if old_owner = [] \<and> new_owner \<noteq> []
                  then Inr (add_player rem name old_owner m)
                  else if new_owner = [] \<and> old_owner \<noteq> []
                       then del_player old_owner m
                       else change_owner old_owner new_owner m) of
              Inl e \<Rightarrow> Inl (e, m)
            | Inr m1 \<Rightarrow>
                (case update_players m1 of
                   Inl e \<Rightarrow> Inl (e, m1)
                 | Inr m2 \<Rightarrow> Inr m2))
      else Inr m)"

text \<open>
  \<^verbatim>\<open>populate_players\<close>: the bus answers \<^verbatim>\<open>list_names()\<close> with the names, and
  for each name its owner and what the peer behind it answers.
\<close>

fun populate_players :: "(string \<times> string \<times> remote) list \<Rightarrow> manager \<Rightarrow> manager" where
  "populate_players [] m = m"
| "populate_players ((name, owner, rem) # rest) m =
     populate_players rest
       (if is_player_bus name then add_player rem name owner m else m)"

text \<open>\<^verbatim>\<open>MPRISManager.__init__\<close>, up to the registration of the signal receiver.\<close>

definition empty_manager :: "string \<Rightarrow> manager" where
  "empty_manager fmt =
     \<lparr>mgr_format_string = fmt, objs = [], players = [],
      primary_player = None, stdout = []\<rparr>"

definition MPRISManager :: "(string \<times> string \<times> remote) list \<Rightarrow> string \<Rightarrow> error + manager" where
  "MPRISManager bus fmt = update_players (populate_players bus (empty_manager fmt))"

text \<open>
  The event loop hands a \<^verbatim>\<open>PropertiesChanged\<close> signal to the handler of the
  object at address \<open>a\<close>; an exception in the handler is logged and the loop
  goes on with the object as the handler left it.
\<close>

definition deliver_PropertiesChanged ::
  "nat \<Rightarrow> remote \<Rightarrow> string \<Rightarrow> changed_props \<Rightarrow> string list \<Rightarrow> manager \<Rightarrow> manager"
where
  "deliver_PropertiesChanged a rem interface cp invalid_props m =
     (case on_PropertiesChanged rem interface cp invalid_props (objs m ! a) of
        Inl (e, p) \<Rightarrow> m\<lparr>objs := (objs m)[a := p]\<rparr>
      | Inr (p, out) \<Rightarrow> m\<lparr>objs := (objs m)[a := p], stdout := stdout m @ out\<rparr>)"

text \<open>
  The states the manager can be in: those built from the empty registry by
  the registry operations, the re-selection pass and the signals delivered to
  a subscribed object.  A handler that raised leaves the state it had reached.
\<close>

inductive reachable :: "manager \<Rightarrow> bool" where
  r_init: "reachable (empty_manager fmt)"
| r_populate: "reachable m \<Longrightarrow> reachable (populate_players bus m)"
| r_add: "reachable m \<Longrightarrow> reachable (add_player rem name owner m)"
| r_del: "reachable m \<Longrightarrow> del_player owner m = Inr m' \<Longrightarrow> reachable m'"
| r_change: "reachable m \<Longrightarrow> change_owner old_owner new_owner m = Inr m' \<Longrightarrow> reachable m'"
| r_update: "reachable m \<Longrightarrow> update_players m = Inr m' \<Longrightarrow> reachable m'"
| r_signal: "reachable m \<Longrightarrow> a < length (objs m) \<Longrightarrow> connection (objs m ! a) = Some True \<Longrightarrow>
     reachable (deliver_PropertiesChanged a rem interface cp invalid_props m)"

section \<open>Notions used to state the properties\<close>

subsection \<open>Metadata entries\<close>

text \<open>
  An entry \<open>(key, v)\<close> of the \<^verbatim>\<open>Metadata\<close> value of a signal names a
  recognised field whose cached value is not \<open>v\<close>.  The field name is the key
  without its first six characters.
\<close>

definition differs :: "(string \<times> pyval) list \<Rightarrow> string \<Rightarrow> pyval \<Rightarrow> bool" where
  "differs cache key v \<longleftrightarrow>
     drop 6 key \<in> set (map fst cache) \<and> map_of cache (drop 6 key) \<noteq> Some v"

subsection \<open>Templates as lists of pieces\<close>

text \<open>
  A template read as a sequence of pieces: literal text, or a token
  \<^verbatim>\<open>{{name}}\<close>.  The closing token of a block \<open>b\<close> is the token with the name
  \<open>/b\<close>.  \<open>flat\<close> gives back the template string.
\<close>

datatype piece = Text string | Marker string

fun piece_str :: "piece \<Rightarrow> string" where
  "piece_str (Text t) = t"
| "piece_str (Marker n) = ''{{'' @ n @ ''}}''"

definition flat :: "piece list \<Rightarrow> string" where
  "flat ps = concat (map piece_str ps)"

text \<open>Text without an opening brace, and names without braces.\<close>

fun ok_piece :: "piece \<Rightarrow> bool" where
  "ok_piece (Text t) \<longleftrightarrow> CHR ''{'' \<notin> set t"
| "ok_piece (Marker n) \<longleftrightarrow> CHR ''{'' \<notin> set n \<and> CHR ''}'' \<notin> set n"

text \<open>The names the renderer knows: the three metadata fields and the block tokens.\<close>

definition known_names :: "string list" where
  "known_names =
     [''title'', ''artist'', ''album'', ''playing'', ''/playing'', ''paused'', ''/paused'']"

fun plain_piece :: "piece \<Rightarrow> bool" where
  "plain_piece (Text t) \<longleftrightarrow> CHR ''{'' \<notin> set t"
| "plain_piece (Marker n) \<longleftrightarrow> n \<in> set known_names"

text \<open>
  Block \<open>b\<close> occurs exactly once: one opening token, one closing token, and
  the closing token is not in front of the opening one.
\<close>

definition one_block :: "string \<Rightarrow> piece list \<Rightarrow> bool" where
  "one_block b ps \<longleftrightarrow>
     count_list ps (Marker b) = 1 \<and> count_list ps (Marker (CHR ''/'' # b)) = 1 \<and>
     Marker (CHR ''/'' # b) \<notin> set (takeWhile (\<lambda>p. p \<noteq> Marker b) ps)"

definition wf_template :: "piece list \<Rightarrow> bool" where
  "wf_template ps \<longleftrightarrow>
     list_all plain_piece ps \<and> one_block ''playing'' ps \<and> one_block ''paused'' ps"

text \<open>
  What substitution makes of the pieces: \<open>subst\<close> is one
  \<^verbatim>\<open>replace\<close> of a token by a string, \<open>fill\<close> is what the loop of
  \<^verbatim>\<open>replace_tag\<close> does to a piece, \<open>shown_value\<close> is the string put in for a
  value.
\<close>

definition subst :: "string \<Rightarrow> string \<Rightarrow> piece \<Rightarrow> piece" where
  "subst n s p = (if p = Marker n then Text s else p)"

fun shown_value :: "pyval \<Rightarrow> string" where
  "shown_value (PStr s) = s"
| "shown_value (PList []) = []"
| "shown_value (PList (x # xs)) = x"

definition fill :: "(string \<times> pyval) list \<Rightarrow> piece \<Rightarrow> piece" where
  "fill md p =
     (case p of
        Text t \<Rightarrow> Text t
      | Marker n \<Rightarrow> (case map_of md n of Some v \<Rightarrow> Text (shown_value v) | None \<Rightarrow> Marker n))"

text \<open>
  A value that can be shown and brings no opening brace with it: a string, or
  a non-empty list, whose first element is the one shown.
\<close>

fun plain_value :: "pyval \<Rightarrow> bool" where
  "plain_value (PStr s) \<longleftrightarrow> CHR ''{'' \<notin> set s"
| "plain_value (PList []) \<longleftrightarrow> False"
| "plain_value (PList (x # xs)) \<longleftrightarrow> CHR ''{'' \<notin> set x"

text \<open>A string holds a token: an opening \<^verbatim>\<open>{{\<close> with a closing \<^verbatim>\<open>}}\<close> after it.\<close>

definition has_marker :: "string \<Rightarrow> bool" where
  "has_marker s \<longleftrightarrow>
     (let i = py_find s ''{{''
      in 0 \<le> i \<and> 0 \<le> py_find (py_slice_from s (i + 2)) ''}}'')"

subsection \<open>Managers\<close>

text \<open>
  Every reference of the manager points into the store, and the objects with
  an installed signal match are exactly the primary player, if there is one.
\<close>

definition wf_manager :: "manager \<Rightarrow> bool" where
  "wf_manager m \<longleftrightarrow>
     (\<forall>a < length (objs m). (connection (objs m ! a) = Some True) = (primary_player m = Some a)) \<and>
     (\<forall>a. primary_player m = Some a \<longrightarrow> a < length (objs m)) \<and>
     (\<forall>(k, a) \<in> set (players m). a < length (objs m))"

section \<open>Example data\<close>

definition default_format :: string where
  "default_format =
     ''{{playing}}Playing: {{/playing}}{{paused}}Paused: {{/paused}}{{artist}} - {{title}}''"

definition vlc_name :: string where
  "vlc_name = ''org.mpris.MediaPlayer2.vlc''"

text \<open>A peer that answers both reads, and one that answers neither.\<close>

definition vlc_remote :: remote where
  "vlc_remote =
     \<lparr>get_Metadata = Some [(''xesam:title'', PStr ''Song''), (''xesam:artist'', PList [''Band''])],
      get_PlaybackStatus = Some ''Playing''\<rparr>"

definition dead_remote :: remote where
  "dead_remote = \<lparr>get_Metadata = None, get_PlaybackStatus = None\<rparr>"

text \<open>The object \<^verbatim>\<open>MPRISPlayer(vlc_name, bus, default_format)\<close> of that peer.\<close>

definition vlc_player :: player where
  "vlc_player =
     \<lparr>bus_name = vlc_name, format_string = default_format, connection = None,
      is_playing = Some True,
      metadata = [(''title'', PStr ''Song''), (''artist'', PList [''Band'']), (''album'', PStr '''')],
      prev_content = None\<rparr>"

text \<open>A signal that carries a position together with other changes.\<close>

definition seek_signal :: changed_props where
  "seek_signal =
     \<lparr>cp_Position = Some 5, cp_Metadata = Some [(''xesam:title'', PStr ''New'')],
      cp_PlaybackStatus = Some ''Paused'', cp_others = []\<rparr>"

text \<open>The default template, piece by piece.\<close>

definition default_pieces :: "piece list" where
  "default_pieces =
     [Marker ''playing'', Text ''Playing: '', Marker ''/playing'',
      Marker ''paused'', Text ''Paused: '', Marker ''/paused'',
      Marker ''artist'', Text '' - '', Marker ''title'']"

text \<open>A template with two \<^verbatim>\<open>playing\<close> blocks, shown by a paused player.\<close>

definition twice_player :: player where
  "twice_player =
     vlc_player\<lparr>format_string :=
         ''{{playing}}A{{/playing}}{{playing}}B{{/playing}}{{paused}}P{{/paused}}{{title}}'',
       is_playing := Some False\<rparr>"

text \<open>
  The manager after start-up with that one peer on the bus, owned by
  \<^verbatim>\<open>:1.7\<close>; after the owner has left; and the empty manager after the peer
  has arrived as \<^verbatim>\<open>:1.42\<close>.
\<close>

definition started :: manager where
  "started =
     \<lparr>mgr_format_string = default_format, objs = [vlc_player\<lparr>connection := Some True\<rparr>],
      players = [('':1.7'', 0)], primary_player = Some 0, stdout = []\<rparr>"

definition departed :: manager where
  "departed = started\<lparr>players := [], stdout := [''NO ACTIVE PLAYERS'']\<rparr>"

definition arrived :: manager where
  "arrived = started\<lparr>players := [('''', 0)]\<rparr>"

text \<open>
  A second peer, which answers with an empty metadata map and the status
  \<^verbatim>\<open>Stopped\<close>, and its object.
\<close>

definition mpv_name :: string where
  "mpv_name = ''org.mpris.MediaPlayer2.mpv''"

definition mpv_remote :: remote where
  "mpv_remote = \<lparr>get_Metadata = Some [], get_PlaybackStatus = Some ''Stopped''\<rparr>"

definition mpv_player :: player where
  "mpv_player =
     \<lparr>bus_name = mpv_name, format_string = default_format, connection = None,
      is_playing = None,
      metadata = [(''title'', PStr []), (''artist'', PStr []), (''album'', PStr [])],
      prev_content = None\<rparr>"

text \<open>
  Two registered peers before the first re-selection pass: the first with an
  unknown status, the second paused.
\<close>

definition two_peers :: manager where
  "two_peers =
     \<lparr>mgr_format_string = default_format,
      objs = [mpv_player, vlc_player\<lparr>is_playing := Some False\<rparr>],
      players = [('':1.1'', 0), ('':1.2'', 1)], primary_player = None, stdout = []\<rparr>"

section \<open>Properties of MPRISPlayer\<close>

subsection \<open>Signals that carry a position\<close>

text \<open>
  Claim C10.  A signal whose changed set contains \<^verbatim>\<open>Position\<close> changes nothing
  in the player and prints nothing, whatever else the changed set holds:
  \<^verbatim>\<open>update_status\<close> returns \<^verbatim>\<open>False\<close> at once and the handler does not render.
\<close>

theorem position_event_dropped:
  assumes "cp_Position cp \<noteq> None"
  shows "update_status rem (Some cp) p = (False, p, []) \<and>
         on_PropertiesChanged rem interface cp invalid_props p = Inr (p, [])"
  using assms by (simp add: update_status_def cp_truthy_def on_PropertiesChanged_def)

theorem position_event_dropped_witness:
  "cp_Position seek_signal \<noteq> None \<and>
   cp_Metadata seek_signal = Some [(''xesam:title'', PStr ''New'')] \<and>
   cp_PlaybackStatus seek_signal = Some ''Paused'' \<and>
   update_status dead_remote (Some seek_signal) vlc_player = (False, vlc_player, []) \<and>
   on_PropertiesChanged dead_remote ''org.mpris.MediaPlayer2.Player'' seek_signal [] vlc_player
     = Inr (vlc_player, [])"
  using position_event_dropped
    [of seek_signal dead_remote vlc_player "''org.mpris.MediaPlayer2.Player''" "[]"]
  by (simp add: seek_signal_def)

subsection \<open>Signals that carry metadata\<close>

lemma scan_metadata_first:
  assumes "\<forall>(k, w) \<in> set pre. \<not> differs cache k w" and "differs cache key v"
  shows "scan_metadata cache (pre @ (key, v) # post) = Some (AList.update (drop 6 key) v cache)"
  using assms by (induction pre) (auto simp: differs_def)

lemma scan_metadata_none:
  assumes "\<forall>(k, w) \<in> set md. \<not> differs cache k w"
  shows "scan_metadata cache md = None"
  using assms by (induction md) (auto simp: differs_def)

text \<open>
  Claim C5.  For a signal with \<^verbatim>\<open>Metadata\<close> and without \<^verbatim>\<open>Position\<close>: when
  \<open>(key, v)\<close> is the first entry, in the order of the signal's dictionary,
  that names a recognised field with a different cached value, exactly that
  field is set to \<open>v\<close>, every other field keeps its cached value (also the
  ones a later entry would change), and the method returns \<^verbatim>\<open>True\<close>.  When
  no entry differs, the metadata are left alone and the result is decided by
  \<^verbatim>\<open>PlaybackStatus\<close> alone.
\<close>

theorem metadata_event_first_differing:
  assumes "cp_Position cp = None" and "cp_Metadata cp = Some md"
  shows "(md = pre @ (key, v) # post \<and> (\<forall>(k, w) \<in> set pre. \<not> differs (metadata p) k w) \<and>
          differs (metadata p) key v \<longrightarrow>
            update_status rem (Some cp) p
              = (True, p\<lparr>metadata := AList.update (drop 6 key) v (metadata p)\<rparr>, []) \<and>
            map_of (AList.update (drop 6 key) v (metadata p)) (drop 6 key) = Some v \<and>
            (\<forall>k'. k' \<noteq> drop 6 key \<longrightarrow>
               map_of (AList.update (drop 6 key) v (metadata p)) k' = map_of (metadata p) k')) \<and>
         ((\<forall>(k, w) \<in> set md. \<not> differs (metadata p) k w) \<longrightarrow>
            update_status rem (Some cp) p
              = (case cp_PlaybackStatus cp of
                   Some s \<Rightarrow> (True, p\<lparr>is_playing := playback_of s\<rparr>, [])
                 | None \<Rightarrow> (False, p, [])))"
proof (intro conjI impI)
  assume "md = pre @ (key, v) # post \<and> (\<forall>(k, w) \<in> set pre. \<not> differs (metadata p) k w) \<and>
          differs (metadata p) key v"
  then have "scan_metadata (metadata p) md = Some (AList.update (drop 6 key) v (metadata p))"
    using scan_metadata_first by blast
  with assms show "update_status rem (Some cp) p
              = (True, p\<lparr>metadata := AList.update (drop 6 key) v (metadata p)\<rparr>, [])"
    by (simp add: update_status_def cp_truthy_def)
  show "map_of (AList.update (drop 6 key) v (metadata p)) (drop 6 key) = Some v"
    by (simp add: update_conv')
  show "\<forall>k'. k' \<noteq> drop 6 key \<longrightarrow>
               map_of (AList.update (drop 6 key) v (metadata p)) k' = map_of (metadata p) k'"
    by (simp add: update_conv')
next
  assume "\<forall>(k, w) \<in> set md. \<not> differs (metadata p) k w"
  then have "scan_metadata (metadata p) md = None"
    by (rule scan_metadata_none)
  with assms show "update_status rem (Some cp) p
              = (case cp_PlaybackStatus cp of
                   Some s \<Rightarrow> (True, p\<lparr>is_playing := playback_of s\<rparr>, [])
                 | None \<Rightarrow> (False, p, []))"
    by (simp add: update_status_def cp_truthy_def split: option.splits)
qed

text \<open>
  The cached title equals the one of the signal, the album differs and is
  taken, the artist differs too and is left as it was.
\<close>

theorem metadata_event_first_differing_witness:
  "update_status dead_remote
     (Some \<lparr>cp_Position = None,
            cp_Metadata = Some [(''xesam:title'', PStr ''Song''), (''xesam:album'', PStr ''B''),
                                (''xesam:artist'', PList [''Duo''])],
            cp_PlaybackStatus = None, cp_others = []\<rparr>)
     vlc_player
   = (True,
      vlc_player\<lparr>metadata :=
        [(''title'', PStr ''Song''), (''artist'', PList [''Band'']), (''album'', PStr ''B'')]\<rparr>,
      [])"
  using metadata_event_first_differing
    [of "\<lparr>cp_Position = None,
            cp_Metadata = Some [(''xesam:title'', PStr ''Song''), (''xesam:album'', PStr ''B''),
                                (''xesam:artist'', PList [''Duo''])],
            cp_PlaybackStatus = None, cp_others = []\<rparr>"
        "[(''xesam:title'', PStr ''Song''), (''xesam:album'', PStr ''B''),
          (''xesam:artist'', PList [''Duo''])]"
        "[(''xesam:title'', PStr ''Song'')]" "''xesam:album''" "PStr ''B''"
        "[(''xesam:artist'', PList [''Duo''])]"
        vlc_player dead_remote]
  by (simp add: differs_def vlc_player_def)

subsection \<open>Signals that carry a playback status\<close>

text \<open>
  When the metadata loop does not return, the status is mapped and stored and
  the method returns \<^verbatim>\<open>True\<close>, also when the stored value does not change.
\<close>

lemma playback_event_applied:
  assumes "cp_Position cp = None" and "cp_PlaybackStatus cp = Some s"
    and "cp_Metadata cp = None \<or>
         (\<exists>md. cp_Metadata cp = Some md \<and> scan_metadata (metadata p) md = None)"
  shows "update_status rem (Some cp) p = (True, p\<lparr>is_playing := playback_of s\<rparr>, [])"
  using assms by (auto simp: update_status_def cp_truthy_def)

lemma playback_of_cases:
  "playback_of ''Playing'' = Some True \<and> playback_of ''Paused'' = Some False \<and>
   playback_of ''Stopped'' = None"
  by (simp add: playback_of_def)

text \<open>
  Claim C6, at the input where the code departs from it.  The signal carries
  a new title and the status \<^verbatim>\<open>Playing\<close>; the player is a fresh one, with
  an unknown status.  The \<^verbatim>\<open>return True\<close> inside the metadata loop ends the
  method before the status is looked at: the title is stored, the method
  returns \<^verbatim>\<open>True\<close>, and \<open>is_playing\<close> is still \<^verbatim>\<open>None\<close>.
\<close>

theorem playback_skipped_after_metadata:
  "update_status rem
     (Some \<lparr>cp_Position = None, cp_Metadata = Some [(''xesam:title'', PStr ''New'')],
            cp_PlaybackStatus = Some ''Playing'', cp_others = []\<rparr>)
     (fresh_player name fmt)
   = (True,
      (fresh_player name fmt)
        \<lparr>metadata := [(''title'', PStr ''New''), (''artist'', PList []), (''album'', PStr '''')]\<rparr>,
      []) \<and>
   is_playing (fresh_player name fmt) = None \<and> playback_of ''Playing'' = Some True"
  by (simp add: update_status_def cp_truthy_def fresh_player_def playback_of_def)

subsection \<open>The full refresh\<close>

text \<open>
  Claim C3, as amended.  A full refresh in which one of the two reads fails
  prints \<^verbatim>\<open>METADATA UNAVAILABLE\<close>, returns \<^verbatim>\<open>False\<close> and leaves the playback
  state, the subscription and the last output as they were.  The cached
  metadata are as they were when the \<^verbatim>\<open>Metadata\<close> read fails; when that read
  succeeds and the \<^verbatim>\<open>PlaybackStatus\<close> read fails, they have already been
  replaced by the values read.
\<close>

theorem failed_refresh:
  assumes "get_Metadata rem = None \<or> get_PlaybackStatus rem = None"
  shows "update_status rem None p =
           (False,
            p\<lparr>metadata := (case get_Metadata rem of
                              None \<Rightarrow> metadata p
                            | Some raw_metadata \<Rightarrow> refresh_metadata raw_metadata (metadata p))\<rparr>,
            [''METADATA UNAVAILABLE''])"
  using assms by (auto simp: update_status_def split: option.splits)

theorem failed_refresh_witness:
  "get_Metadata dead_remote = None \<and>
   update_status dead_remote None vlc_player = (False, vlc_player, [''METADATA UNAVAILABLE''])"
  using failed_refresh [of dead_remote vlc_player]
  by (simp add: dead_remote_def)

text \<open>
  The claim as it stands fails when only the second read fails: the fresh
  player's metadata are overwritten although the refresh reports a failure.
\<close>

theorem failed_refresh_counterexample:
  "update_status
     \<lparr>get_Metadata = Some [(''xesam:title'', PStr ''Song'')], get_PlaybackStatus = None\<rparr>
     None (fresh_player vlc_name default_format)
   = (False,
      (fresh_player vlc_name default_format)
         \<lparr>metadata := [(''title'', PStr ''Song''), (''artist'', PStr ''''), (''album'', PStr '''')]\<rparr>,
      [''METADATA UNAVAILABLE'']) \<and>
   metadata (fresh_player vlc_name default_format)
     = [(''title'', PStr ''''), (''artist'', PList []), (''album'', PStr '''')]"
  by (simp add: update_status_def fresh_player_def refresh_metadata_def)

subsection \<open>Rendering and the last output\<close>

lemma render_prev_content: "render (p\<lparr>prev_content := x\<rparr>) = render p"
  by (simp add: render_def split: sum.splits)

lemma render_vlc: "render vlc_player = Inr ''Playing: Band - Song''"
  by (simp add: vlc_player_def default_format_def render_def replace_block_def
      py_slice_to_def py_slice_from_def)

text \<open>
  Claim C8, as amended.  When the template can be rendered to \<open>r\<close>, the first
  of two calls of \<^verbatim>\<open>print_status\<close> in a row prints \<open>r\<close> unless
  \<^verbatim>\<open>prev_content\<close> already is \<open>r\<close>, and leaves \<open>r\<close> there; the second call
  prints nothing and changes nothing.  So the two calls print \<open>r\<close> once when
  they start from a different last output, as a fresh player does, and not at
  all otherwise.
\<close>

theorem print_status_twice:
  assumes "render p = Inr r"
  shows "print_status p
           = Inr (p\<lparr>prev_content := Some r\<rparr>, if prev_content p = Some r then [] else [r]) \<and>
         print_status (p\<lparr>prev_content := Some r\<rparr>) = Inr (p\<lparr>prev_content := Some r\<rparr>, [])"
  using assms by (auto simp: print_status_def render_prev_content)

theorem print_status_twice_witness:
  "render vlc_player = Inr ''Playing: Band - Song'' \<and>
   prev_content vlc_player = None \<and>
   print_status vlc_player
     = Inr (vlc_player\<lparr>prev_content := Some ''Playing: Band - Song''\<rparr>,
            [''Playing: Band - Song'']) \<and>
   print_status (vlc_player\<lparr>prev_content := Some ''Playing: Band - Song''\<rparr>)
     = Inr (vlc_player\<lparr>prev_content := Some ''Playing: Band - Song''\<rparr>, [])"
  using print_status_twice [OF render_vlc] render_vlc
  by (simp add: vlc_player_def)

text \<open>
  The claim as it stands fails for a player whose last output already is the
  rendered string: the first of the two calls prints nothing, and so does the
  second, since the player is unchanged.
\<close>

theorem print_status_twice_counterexample:
  "render (vlc_player\<lparr>prev_content := Some ''Playing: Band - Song''\<rparr>)
     = Inr ''Playing: Band - Song'' \<and>
   print_status (vlc_player\<lparr>prev_content := Some ''Playing: Band - Song''\<rparr>)
     = Inr (vlc_player\<lparr>prev_content := Some ''Playing: Band - Song''\<rparr>, [])"
  by (simp add: print_status_def render_prev_content render_vlc)

subsection \<open>The keys of the metadata\<close>

text \<open>
  A player is built with the keys \<^verbatim>\<open>title\<close>, \<^verbatim>\<open>artist\<close> and \<^verbatim>\<open>album\<close>, and
  \<^verbatim>\<open>update_status\<close> only assigns to keys that exist.
\<close>

lemma keys_AList_update: "(k, x) \<in> set al \<Longrightarrow> map fst (AList.update k v al) = map fst al"
  by (induction al) auto

lemma scan_metadata_keys:
  "scan_metadata cache md = Some cache' \<Longrightarrow> map fst cache' = map fst cache"
  by (induction md) (auto simp: Let_def keys_AList_update split: if_splits)

lemma refresh_metadata_keys: "map fst (refresh_metadata raw cache) = map fst cache"
  by (induction cache) (auto simp: refresh_metadata_def)

lemma update_status_keys:
  assumes "update_status rem changed p = (u, p', out)"
  shows "map fst (metadata p') = map fst (metadata p)"
  using assms
  by (auto simp: update_status_def Let_def refresh_metadata_keys
      split: option.splits if_splits dest: scan_metadata_keys)

lemma MPRISPlayer_keys:
  "map fst (metadata (fst (MPRISPlayer rem name fmt))) = [''title'', ''artist'', ''album'']"
proof -
  obtain u p out where h: "update_status rem None (fresh_player name fmt) = (u, p, out)"
    by (cases "update_status rem None (fresh_player name fmt)") auto
  from update_status_keys [OF h] have "map fst (metadata p) = [''title'', ''artist'', ''album'']"
    by (simp add: fresh_player_def)
  with h show ?thesis by (simp add: MPRISPlayer_def)
qed

section \<open>Properties of the template helpers\<close>

text \<open>
  Claim C9, at the input where the code departs from it: the metadata a
  player starts with, whose artist is the empty list.  \<^verbatim>\<open>value_dict[tag_name][0]\<close>
  raises \<^verbatim>\<open>IndexError\<close>; no string is produced.
\<close>

theorem replace_tag_empty_artist:
  "replace_tag default_format
     [(''title'', PStr ''''), (''artist'', PList []), (''album'', PStr '''')]
   = Inl IndexError \<and>
   metadata (fresh_player name fmt)
     = [(''title'', PStr ''''), (''artist'', PList []), (''album'', PStr '''')]"
  by (simp add: fresh_player_def)

subsection \<open>Find and replace on templates\<close>

text \<open>
  On a template made of pieces, \<^verbatim>\<open>replace\<close> of a token acts piece by piece
  and \<^verbatim>\<open>find\<close> of a token returns the length of what stands in front of its
  first occurrence: an opening brace occurs only at the start of a token, and
  two tokens with brace-free names match only when the names are equal.
\<close>

lemma flat_simps [simp]:
  "flat [] = []" "flat (p # ps) = piece_str p @ flat ps" "flat (ps @ qs) = flat ps @ flat qs"
  by (simp_all add: flat_def)

lemma py_replace_text:
  "CHR ''{'' \<notin> set t \<Longrightarrow>
     py_replace (t @ rest) (CHR ''{'' # old) new = t @ py_replace rest (CHR ''{'' # old) new"
  by (induction t) auto

lemma py_replace_hit:
  "old \<noteq> [] \<Longrightarrow> py_replace (old @ rest) old new = new @ py_replace rest old new"
  by (cases old) auto

lemma name_prefix:
  "CHR ''}'' \<notin> set n \<Longrightarrow> CHR ''}'' \<notin> set n' \<Longrightarrow>
     prefix (n @ CHR ''}'' # x) (n' @ CHR ''}'' # y) \<Longrightarrow> n = n'"
proof (induction n arbitrary: n')
  case Nil
  then show ?case by (cases n') auto
next
  case (Cons a n)
  then show ?case by (cases n') auto
qed

lemma marker_no_prefix:
  assumes "CHR ''}'' \<notin> set n" "CHR ''}'' \<notin> set n'" "n \<noteq> n'"
  shows "\<not> prefix (CHR ''{'' # CHR ''{'' # n @ ''}}'') (CHR ''{'' # CHR ''{'' # n' @ ''}}'' @ rest)"
  using assms name_prefix [of n n' "''}''" "CHR ''}'' # rest"] by auto

lemma marker_no_prefix2:
  assumes "CHR ''{'' \<notin> set n'"
  shows "\<not> prefix (CHR ''{'' # CHR ''{'' # x) (CHR ''{'' # n' @ ''}}'' @ rest)"
  using assms by (cases n') auto

lemma py_replace_miss:
  assumes "CHR ''}'' \<notin> set n" "CHR ''}'' \<notin> set n'" "CHR ''{'' \<notin> set n'" "n \<noteq> n'"
  shows "py_replace (piece_str (Marker n') @ rest) (piece_str (Marker n)) new
           = piece_str (Marker n') @ py_replace rest (piece_str (Marker n)) new"
proof -
  have "py_replace (n' @ ''}}'' @ rest) (CHR ''{'' # CHR ''{'' # n @ ''}}'') new
          = n' @ ''}}'' @ py_replace rest (CHR ''{'' # CHR ''{'' # n @ ''}}'') new"
    using py_replace_text [of "n' @ ''}}''" rest "CHR ''{'' # n @ ''}}''" new] assms(3) by simp
  then show ?thesis
    using marker_no_prefix [OF assms(1,2,4), of rest] marker_no_prefix2 [OF assms(3), of "n @ ''}}''" rest]
    by simp
qed

lemma py_replace_flat:
  assumes "list_all ok_piece ps" "CHR ''{'' \<notin> set n" "CHR ''}'' \<notin> set n"
  shows "py_replace (flat ps) (piece_str (Marker n)) new = flat (map (subst n new) ps)"
  using assms(1)
proof (induction ps)
  case Nil
  then show ?case by simp
next
  case (Cons p ps)
  show ?case
  proof (cases p)
    case (Text t)
    with Cons show ?thesis
      using py_replace_text [of t "flat ps" "CHR ''{'' # n @ ''}}''" new]
      by (simp add: subst_def)
  next
    case (Marker n')
    show ?thesis
    proof (cases "n' = n")
      case True
      with Marker Cons show ?thesis
        using py_replace_hit [of "piece_str (Marker n)" "flat ps" new]
        by (simp add: subst_def)
    next
      case False
      with Marker Cons assms(2,3) show ?thesis
        using py_replace_miss [of n n' "flat ps" new]
        by (simp add: subst_def)
    qed
  qed
qed


lemma py_find_range: "py_find s sub < 0 \<Longrightarrow> py_find s sub = - 1"
  by (induction s) (auto simp: Let_def split: if_splits)

lemma py_find_text:
  "CHR ''{'' \<notin> set t \<Longrightarrow>
     py_find (t @ rest) (CHR ''{'' # old)
       = (if py_find rest (CHR ''{'' # old) < 0 then - 1
          else int (length t) + py_find rest (CHR ''{'' # old))"
  by (induction t) (auto simp: Let_def dest: py_find_range)

lemma py_find_hit: "py_find (old @ rest) old = 0"
proof (cases "old @ rest")
  case Nil
  then show ?thesis by simp
next
  case (Cons a list)
  then have "prefix old (a # list)" by (metis prefixI)
  then show ?thesis unfolding Cons by simp
qed

lemma py_find_miss:
  assumes "CHR ''}'' \<notin> set n" "CHR ''}'' \<notin> set n'" "CHR ''{'' \<notin> set n'" "n \<noteq> n'"
  shows "py_find (piece_str (Marker n') @ rest) (piece_str (Marker n))
           = (if py_find rest (piece_str (Marker n)) < 0 then - 1
              else int (length (piece_str (Marker n'))) + py_find rest (piece_str (Marker n)))"
proof -
  have "py_find (n' @ ''}}'' @ rest) (CHR ''{'' # CHR ''{'' # n @ ''}}'')
          = (if py_find rest (CHR ''{'' # CHR ''{'' # n @ ''}}'') < 0 then - 1
             else int (length (n' @ ''}}'')) + py_find rest (CHR ''{'' # CHR ''{'' # n @ ''}}''))"
    using py_find_text [of "n' @ ''}}''" rest "CHR ''{'' # n @ ''}}''"] assms(3) by simp
  then show ?thesis
    using marker_no_prefix [OF assms(1,2,4), of rest] marker_no_prefix2 [OF assms(3), of "n @ ''}}''" rest]
    by (simp add: Let_def)
qed

lemma py_find_flat:
  assumes "list_all ok_piece pre" "Marker n \<notin> set pre" "CHR ''}'' \<notin> set n"
  shows "py_find (flat (pre @ Marker n # post)) (piece_str (Marker n)) = int (length (flat pre))"
  using assms(1,2)
proof (induction pre)
  case Nil
  show ?case using py_find_hit [of "piece_str (Marker n)" "flat post"] by simp
next
  case (Cons p pre)
  then have IH: "py_find (flat (pre @ Marker n # post)) (piece_str (Marker n)) = int (length (flat pre))"
    by simp
  show ?case
  proof (cases p)
    case (Text t)
    with Cons.prems IH show ?thesis
      using py_find_text [of t "flat (pre @ Marker n # post)" "CHR ''{'' # n @ ''}}''"]
      by simp
  next
    case (Marker n')
    with Cons.prems IH assms(3) show ?thesis
      using py_find_miss [of n n' "flat (pre @ Marker n # post)"]
      by simp
  qed
qed

lemma py_slice_nat:
  "py_slice_to s (int k) = take k s" "py_slice_from s (int k) = drop k s"
  by (simp_all add: py_slice_to_def py_slice_from_def)

lemma replace_block_delete:
  assumes "list_all ok_piece (pre @ mid)"
    and "Marker b \<notin> set pre"
    and "Marker (CHR ''/'' # b) \<notin> set pre \<union> set mid"
    and "CHR ''{'' \<notin> set b" "CHR ''}'' \<notin> set b"
  shows "replace_block (flat (pre @ Marker b # mid @ Marker (CHR ''/'' # b) # post)) b (Some [])
           = flat (pre @ post)"
proof -
  let ?e = "Marker (CHR ''/'' # b)"
  let ?s = "flat (pre @ Marker b # mid @ ?e # post)"
  let ?k = "length (flat (pre @ Marker b # mid))"
  have b: "py_find ?s (piece_str (Marker b)) = int (length (flat pre))"
    using py_find_flat [of pre b "mid @ ?e # post"] assms by simp
  have "py_find (flat ((pre @ Marker b # mid) @ ?e # post)) (piece_str ?e) = int ?k"
    using assms by (intro py_find_flat) auto
  then have e: "py_find ?s (piece_str ?e) = int ?k"
    by simp
  have t: "take (length (flat pre)) ?s = flat pre" by simp
  have "?s = (flat (pre @ Marker b # mid) @ piece_str ?e) @ flat post" by simp
  then have d: "drop (?k + length (piece_str ?e)) ?s = flat post"
    by (metis append_eq_conv_conj length_append)
  have "replace_block ?s b (Some [])
          = py_slice_to ?s (py_find ?s (piece_str (Marker b))) @
            py_slice_from ?s (py_find ?s (piece_str ?e) + int (length (piece_str ?e)))"
    by (simp add: replace_block_def Let_def)
  also have "\<dots> = py_slice_to ?s (int (length (flat pre))) @
                  py_slice_from ?s (int (?k + length (piece_str ?e)))"
    by (simp only: b e of_nat_add)
  also have "\<dots> = flat pre @ flat post"
    by (simp only: py_slice_nat t d)
  finally show ?thesis by simp
qed


lemma replace_block_strip:
  assumes "list_all ok_piece ps" "CHR ''{'' \<notin> set b" "CHR ''}'' \<notin> set b"
  shows "replace_block (flat ps) b None
           = flat (map (subst (CHR ''/'' # b) []) (map (subst b []) ps))"
proof -
  have ok: "list_all ok_piece (map (subst b []) ps)"
    using assms(1) by (induction ps) (auto simp: subst_def)
  have "replace_block (flat ps) b None
          = py_replace (py_replace (flat ps) (piece_str (Marker b)) [])
              (piece_str (Marker (CHR ''/'' # b))) []"
    by (simp add: replace_block_def Let_def)
  also have "\<dots> = py_replace (flat (map (subst b []) ps)) (piece_str (Marker (CHR ''/'' # b))) []"
    using py_replace_flat [OF assms] by simp
  also have "\<dots> = flat (map (subst (CHR ''/'' # b) []) (map (subst b []) ps))"
    using assms(2,3) by (intro py_replace_flat [OF ok]) auto
  finally show ?thesis .
qed

lemma fill_Cons:
  "fill md (subst k (shown_value v) p) = fill ((k, v) # md) p"
  by (cases p) (auto simp: fill_def subst_def)

lemma ok_piece_subst: "ok_piece p \<Longrightarrow> CHR ''{'' \<notin> set s \<Longrightarrow> ok_piece (subst n s p)"
  by (simp add: subst_def)

lemma replace_tag_flat:
  assumes "list_all ok_piece ps"
    and "\<forall>(k, v) \<in> set md. CHR ''{'' \<notin> set k \<and> CHR ''}'' \<notin> set k \<and> plain_value v"
  shows "replace_tag (flat ps) md = Inr (flat (map (fill md) ps))"
  using assms
proof (induction md arbitrary: ps)
  case Nil
  have "map (fill []) ps = ps"
    by (induction ps) (auto simp: fill_def split: piece.splits)
  then show ?case by simp
next
  case (Cons kv md)
  obtain k v where kv: "kv = (k, v)" by (cases kv)
  with Cons.prems have k: "CHR ''{'' \<notin> set k" "CHR ''}'' \<notin> set k" and v: "plain_value v"
    by auto
  from v have sv: "CHR ''{'' \<notin> set (shown_value v)"
    by (cases v rule: plain_value.cases) auto
  have ok: "list_all ok_piece (map (subst k (shown_value v)) ps)"
    using Cons.prems(1) sv by (induction ps) (auto simp: ok_piece_subst)
  have step: "replace_tag (flat ps) ((k, v) # md)
                = replace_tag (py_replace (flat ps) (piece_str (Marker k)) (shown_value v)) md"
    using v by (cases v rule: plain_value.cases) auto
  have "replace_tag (flat ps) ((k, v) # md)
          = replace_tag (flat (map (subst k (shown_value v)) ps)) md"
    unfolding step using py_replace_flat [OF Cons.prems(1) k] by simp
  also have "\<dots> = Inr (flat (map (fill md) (map (subst k (shown_value v)) ps)))"
    using Cons.prems(2) by (intro Cons.IH [OF ok]) auto
  also have "map (fill md) (map (subst k (shown_value v)) ps) = map (fill ((k, v) # md)) ps"
    by (simp add: fill_Cons)
  finally show ?case by (simp add: kv)
qed

lemma one_block_split:
  assumes "one_block b ps"
  obtains pre mid post where
    "ps = pre @ Marker b # mid @ Marker (CHR ''/'' # b) # post"
    "Marker b \<notin> set pre \<union> set mid \<union> set post"
    "Marker (CHR ''/'' # b) \<notin> set pre \<union> set mid \<union> set post"
proof -
  let ?e = "Marker (CHR ''/'' # b)"
  from assms have cb: "count_list ps (Marker b) = 1" and ce: "count_list ps ?e = 1"
    and tw: "?e \<notin> set (takeWhile (\<lambda>p. p \<noteq> Marker b) ps)"
    by (auto simp: one_block_def)
  from cb have "Marker b \<in> set ps" by (metis count_list_0_iff zero_neq_one)
  then obtain pre zs where ps: "ps = pre @ Marker b # zs" and pre: "Marker b \<notin> set pre"
    by (meson split_list_first)
  from cb ps pre have zs: "Marker b \<notin> set zs"
    by (simp add: count_list_0_iff [symmetric])
  have "\<forall>x \<in> set pre. x \<noteq> Marker b" using pre by auto
  then have "takeWhile (\<lambda>p. p \<noteq> Marker b) ps = pre"
    unfolding ps by (induction pre) auto
  with tw have epre: "?e \<notin> set pre" by simp
  from ce have "?e \<in> set ps" by (metis count_list_0_iff zero_neq_one)
  with epre ps have "?e \<in> set zs" by auto
  then obtain mid post where zs': "zs = mid @ ?e # post" and emid: "?e \<notin> set mid"
    by (meson split_list_first)
  from ce ps zs' epre emid have epost: "?e \<notin> set post"
    by (simp add: count_list_0_iff [symmetric])
  show thesis
    using that [of pre mid post] ps zs' pre zs epre emid epost by auto
qed


lemma py_find_absent: "c \<notin> set s \<Longrightarrow> py_find s (c # sub) = - 1"
  by (induction s) (auto simp: Let_def)

lemma no_brace_no_marker: "CHR ''{'' \<notin> set s \<Longrightarrow> \<not> has_marker s"
  using py_find_absent [of "CHR ''{''" s "''{''"] by (simp add: has_marker_def)

lemma flat_texts:
  "\<forall>p \<in> set qs. \<exists>t. p = Text t \<and> CHR ''{'' \<notin> set t \<Longrightarrow> CHR ''{'' \<notin> set (flat qs)"
  by (induction qs) auto

lemma plain_ok: "plain_piece p \<Longrightarrow> ok_piece p"
  by (cases p) (auto simp: known_names_def)

lemma fill_cases:
  assumes "plain_piece p" and "map fst md = [''title'', ''artist'', ''album'']"
    and "list_all plain_value (map snd md)"
  shows "(\<exists>t. fill md p = Text t \<and> CHR ''{'' \<notin> set t) \<or>
         (fill md p = p \<and>
          p \<in> {Marker ''playing'', Marker ''/playing'', Marker ''paused'', Marker ''/paused''})"
proof (cases p)
  case (Text t)
  with assms(1) show ?thesis by (simp add: fill_def)
next
  case (Marker n)
  show ?thesis
  proof (cases "map_of md n")
    case None
    then have "n \<notin> set (map fst md)" by (simp add: map_of_eq_None_iff)
    with assms(1,2) Marker None show ?thesis
      by (auto simp: fill_def known_names_def)
  next
    case (Some v)
    then have "(n, v) \<in> set md" by (rule map_of_SomeD)
    then have "v \<in> set (map snd md)" by force
    with assms(3) have "plain_value v" by (auto simp: list_all_iff)
    then have "CHR ''{'' \<notin> set (shown_value v)"
      by (cases v rule: plain_value.cases) auto
    with Marker Some show ?thesis by (simp add: fill_def)
  qed
qed

lemma md_ok:
  assumes "map fst md = [''title'', ''artist'', ''album'']"
    and "list_all plain_value (map snd md)"
  shows "\<forall>(k, v) \<in> set md. CHR ''{'' \<notin> set k \<and> CHR ''}'' \<notin> set k \<and> plain_value v"
proof (intro ballI, clarify)
  fix k v assume kv: "(k, v) \<in> set md"
  then have "k \<in> set (map fst md)" and "v \<in> set (map snd md)" by force+
  with assms show "CHR ''{'' \<notin> set k \<and> CHR ''}'' \<notin> set k \<and> plain_value v"
    by (auto simp: list_all_iff)
qed

text \<open>
  Claim C7, as amended.  Take a template made of text without an opening
  brace, of tokens for the three metadata fields, and of exactly one
  \<^verbatim>\<open>playing\<close> block and exactly one \<^verbatim>\<open>paused\<close> block, each opened before
  it is closed; and a player whose metadata hold, under the three keys, values
  that can be shown and bring no opening brace.  Then \<^verbatim>\<open>print_status\<close> builds
  a string, in every playback state, and the string has no opening brace, so
  no token is left in it.
\<close>

theorem render_no_markers:
  assumes wf: "wf_template ps"
    and fmt: "format_string p = flat ps"
    and keys: "map fst (metadata p) = [''title'', ''artist'', ''album'']"
    and vals: "list_all plain_value (map snd (metadata p))"
  shows "\<exists>r. render p = Inr r \<and> CHR ''{'' \<notin> set r \<and> \<not> has_marker r"
proof -
  let ?f = "fill (metadata p)"
  from wf have plain: "\<forall>x \<in> set ps. plain_piece x"
    by (simp add: wf_template_def list_all_iff)
  then have ok: "list_all ok_piece ps" by (simp add: list_all_iff plain_ok)
  have fc: "\<And>x. x \<in> set ps \<Longrightarrow>
      (\<exists>t. ?f x = Text t \<and> CHR ''{'' \<notin> set t) \<or>
      (?f x = x \<and> x \<in> {Marker ''playing'', Marker ''/playing'', Marker ''paused'', Marker ''/paused''})"
    using fill_cases [OF _ keys vals] plain by blast
  have okf: "\<And>x. x \<in> set ps \<Longrightarrow> ok_piece (?f x)"
    using fc by fastforce
  have tag: "replace_tag (format_string p) (metadata p) = Inr (flat (map ?f ps))"
    unfolding fmt by (rule replace_tag_flat [OF ok md_ok [OF keys vals]])
  have fixed: "?f (Marker ''playing'') = Marker ''playing''" "?f (Marker ''/playing'') = Marker ''/playing''"
    "?f (Marker ''paused'') = Marker ''paused''" "?f (Marker ''/paused'') = Marker ''/paused''"
    using keys by (auto simp: fill_def map_of_eq_None_iff [THEN iffD2] split: option.splits
        dest!: map_of_SomeD)
  have "\<exists>r. render p = Inr r \<and> CHR ''{'' \<notin> set r"
  proof (cases "is_playing p = Some True")
    case True
    let ?g = "\<lambda>x. subst ''/playing'' [] (subst ''playing'' [] (?f x))"
    from wf obtain pre mid post where
      ps: "ps = pre @ Marker ''paused'' # mid @ Marker ''/paused'' # post"
      and nb: "Marker ''paused'' \<notin> set pre \<union> set mid \<union> set post"
      and ne: "Marker ''/paused'' \<notin> set pre \<union> set mid \<union> set post"
      using one_block_split [of "''paused''" ps] by (auto simp: wf_template_def)
    have gt: "\<And>x. x \<in> set pre \<union> set mid \<union> set post \<Longrightarrow>
        \<exists>t. ?g x = Text t \<and> CHR ''{'' \<notin> set t"
    proof -
      fix x assume x: "x \<in> set pre \<union> set mid \<union> set post"
      then have "x \<in> set ps" "x \<noteq> Marker ''paused''" "x \<noteq> Marker ''/paused''"
        using ps nb ne by auto
      with fc [of x] show "\<exists>t. ?g x = Text t \<and> CHR ''{'' \<notin> set t"
        by (auto simp: subst_def)
    qed
    have s1: "replace_block (flat (map ?f ps)) ''playing'' None = flat (map ?g ps)"
      using replace_block_strip [of "map ?f ps" "''playing''"] okf
      by (simp add: list_all_iff comp_def)
    have gps: "map ?g ps = map ?g pre @ Marker ''paused'' # map ?g mid @ Marker ''/paused'' # map ?g post"
      unfolding ps by (simp add: fixed subst_def)
    have "replace_block (flat (map ?g ps)) ''paused'' (Some []) = flat (map ?g pre @ map ?g post)"
      unfolding gps
    proof (rule replace_block_delete)
      show "list_all ok_piece (map ?g pre @ map ?g mid)"
        using gt by (fastforce simp: list_all_iff)
      show "Marker ''paused'' \<notin> set (map ?g pre)" using gt by fastforce
      show "Marker ''/paused'' \<notin> set (map ?g pre) \<union> set (map ?g mid)" using gt by fastforce
    qed simp_all
    moreover have "CHR ''{'' \<notin> set (flat (map ?g pre @ map ?g post))"
      by (rule flat_texts) (use gt in auto)
    ultimately show ?thesis
      using True tag s1 by (simp add: render_def)
  next
    case False
    let ?h = "\<lambda>x. subst ''/paused'' [] (subst ''paused'' [] x)"
    from wf obtain pre mid post where
      ps: "ps = pre @ Marker ''playing'' # mid @ Marker ''/playing'' # post"
      and nb: "Marker ''playing'' \<notin> set pre \<union> set mid \<union> set post"
      and ne: "Marker ''/playing'' \<notin> set pre \<union> set mid \<union> set post"
      using one_block_split [of "''playing''" ps] by (auto simp: wf_template_def)
    have sub: "set pre \<union> set mid \<union> set post \<subseteq> set ps" unfolding ps by auto
    have ht: "\<And>x. x \<in> set pre \<union> set mid \<union> set post \<Longrightarrow>
        \<exists>t. ?h (?f x) = Text t \<and> CHR ''{'' \<notin> set t"
    proof -
      fix x assume x: "x \<in> set pre \<union> set mid \<union> set post"
      then have "x \<in> set ps" "x \<noteq> Marker ''playing''" "x \<noteq> Marker ''/playing''"
        using ps nb ne by auto
      with fc [of x] show "\<exists>t. ?h (?f x) = Text t \<and> CHR ''{'' \<notin> set t"
        by (auto simp: subst_def)
    qed
    have fne: "\<And>x. x \<in> set pre \<union> set mid \<union> set post \<Longrightarrow>
        ?f x \<noteq> Marker ''playing'' \<and> ?f x \<noteq> Marker ''/playing''"
    proof -
      fix x assume x: "x \<in> set pre \<union> set mid \<union> set post"
      then have xs: "x \<in> set ps" and xn: "x \<noteq> Marker ''playing''" "x \<noteq> Marker ''/playing''"
        using ps nb ne by auto
      from fc [OF xs] consider t where "?f x = Text t" | "?f x = x" by blast
      then show "?f x \<noteq> Marker ''playing'' \<and> ?f x \<noteq> Marker ''/playing''"
      proof cases
        case 1
        then show ?thesis by simp
      next
        case 2
        with xn show ?thesis by simp
      qed
    qed
    have fps: "map ?f ps = map ?f pre @ Marker ''playing'' # map ?f mid @ Marker ''/playing'' # map ?f post"
      unfolding ps by (simp add: fixed)
    have d1: "replace_block (flat (map ?f ps)) ''playing'' (Some []) = flat (map ?f pre @ map ?f post)"
      unfolding fps
    proof (rule replace_block_delete)
      show "list_all ok_piece (map ?f pre @ map ?f mid)"
        using okf sub by (auto simp: list_all_iff)
      show "Marker ''playing'' \<notin> set (map ?f pre)" using fne by fastforce
      show "Marker ''/playing'' \<notin> set (map ?f pre) \<union> set (map ?f mid)" using fne by fastforce
    qed simp_all
    have "list_all ok_piece (map ?f pre @ map ?f post)"
      using okf sub by (auto simp: list_all_iff)
    then have s2: "replace_block (flat (map ?f pre @ map ?f post)) ''paused'' None
                 = flat (map ?h (map ?f pre @ map ?f post))"
      using replace_block_strip [of "map ?f pre @ map ?f post" "''paused''"]
      by (simp add: comp_def)
    have "CHR ''{'' \<notin> set (flat (map ?h (map ?f pre @ map ?f post)))"
      by (rule flat_texts) (use ht in auto)
    then show ?thesis
      using False tag d1 s2 by (simp add: render_def)
  qed
  then show ?thesis using no_brace_no_marker by blast
qed

lemma wf_default_pieces: "wf_template default_pieces"
  by (simp add: wf_template_def default_pieces_def one_block_def known_names_def)

lemma flat_default_pieces: "flat default_pieces = default_format"
  by (simp add: default_pieces_def default_format_def)

theorem render_no_markers_witness:
  "wf_template default_pieces \<and> format_string vlc_player = flat default_pieces \<and>
   render vlc_player = Inr ''Playing: Band - Song'' \<and>
   CHR ''{'' \<notin> set ''Playing: Band - Song'' \<and> \<not> has_marker ''Playing: Band - Song''"
proof -
  have f: "format_string vlc_player = flat default_pieces"
    by (simp add: flat_default_pieces vlc_player_def)
  have k: "map fst (metadata vlc_player) = [''title'', ''artist'', ''album'']"
    by (simp add: vlc_player_def)
  have v: "list_all plain_value (map snd (metadata vlc_player))"
    by (simp add: vlc_player_def)
  from render_no_markers [OF wf_default_pieces f k v] render_vlc wf_default_pieces f
  show ?thesis by simp
qed

text \<open>
  The claim as it stands fails for a template with two \<^verbatim>\<open>playing\<close> blocks
  shown by a paused player: \<^verbatim>\<open>replace_block\<close> with an empty replacement cuts
  from the first opening token to the first closing token only, and the
  tokens of the second block stay in the output.
\<close>

theorem render_no_markers_counterexample:
  "format_string twice_player
     = flat [Marker ''playing'', Text ''A'', Marker ''/playing'',
             Marker ''playing'', Text ''B'', Marker ''/playing'',
             Marker ''paused'', Text ''P'', Marker ''/paused'', Marker ''title''] \<and>
   render twice_player = Inr ''{{playing}}B{{/playing}}PSong'' \<and>
   has_marker ''{{playing}}B{{/playing}}PSong''"
  by (simp add: twice_player_def vlc_player_def render_def replace_block_def
      py_slice_to_def py_slice_from_def has_marker_def flat_def)

text \<open>
  A block that is missing is no better: \<^verbatim>\<open>find\<close> returns \<open>-1\<close>, and the
  slices cut the last character off and repeat the tail of the template.
\<close>

lemma render_missing_block:
  "render (vlc_player\<lparr>format_string := ''0123456{{paused}}X{{/paused}}'',
                      is_playing := Some False\<rparr>)
     = Inr ''0123456X{{/paused}used}}X''"
  by (simp add: vlc_player_def render_def replace_block_def py_slice_to_def py_slice_from_def)

section \<open>Properties of MPRISManager\<close>

subsection \<open>The re-selection pass\<close>

lemma update_players_loop_skip:
  assumes "\<forall>(k, b) \<in> set pre. is_playing (objs m ! b) = None"
  shows "update_players_loop (pre @ rest) m = update_players_loop rest m"
  using assms by (induction pre) auto

text \<open>With no such entry the pass only prints its message.\<close>

lemma update_players_none_active:
  assumes "\<forall>(k, b) \<in> set (players m). is_playing (objs m ! b) = None"
  shows "update_players m = Inr (m\<lparr>stdout := stdout m @ [''NO ACTIVE PLAYERS'']\<rparr>)"
  using update_players_loop_skip [OF assms, of "[]"] by (simp add: update_players_def)

subsection \<open>Arrival and departure of a peer\<close>

lemma started_eq: "MPRISManager [(vlc_name, '':1.7'', vlc_remote)] default_format = Inr started"
  by (simp add: MPRISManager_def update_players_def empty_manager_def add_player_def
      MPRISPlayer_def update_status_def fresh_player_def refresh_metadata_def vlc_remote_def
      playback_of_def is_player_bus_def vlc_name_def started_def vlc_player_def connect_def)

lemma departed_eq: "on_NameOwnerChanged dead_remote vlc_name '':1.7'' '''' started = Inr departed"
  by (simp add: on_NameOwnerChanged_def is_player_bus_def vlc_name_def del_player_def
      started_def departed_def update_players_def)

text \<open>
  Claim C2, at the input where the code departs from it.  The peer arrives
  with the new owner \<^verbatim>\<open>:1.42\<close>; \<^verbatim>\<open>on_NameOwnerChanged\<close> passes \<^verbatim>\<open>old_owner\<close>,
  the empty string, to \<^verbatim>\<open>add_player\<close>, so the player is registered under the
  empty string and there is no entry for \<^verbatim>\<open>:1.42\<close>.  The departure of
  \<^verbatim>\<open>:1.42\<close> then raises \<^verbatim>\<open>KeyError\<close> in \<^verbatim>\<open>del_player\<close> and leaves the manager
  as it was: one registered player, which is the primary one.
\<close>

theorem arrival_keyed_by_old_owner:
  "on_NameOwnerChanged vlc_remote vlc_name '''' '':1.42'' (empty_manager default_format)
     = Inr arrived \<and>
   players arrived = [('''', 0)] \<and>
   map_of (players arrived) '':1.42'' = None \<and>
   on_NameOwnerChanged dead_remote vlc_name '':1.42'' '''' arrived = Inl (KeyError, arrived) \<and>
   primary_player arrived = Some 0"
  by (simp add: on_NameOwnerChanged_def update_players_def empty_manager_def add_player_def
      del_player_def MPRISPlayer_def update_status_def fresh_player_def refresh_metadata_def
      vlc_remote_def playback_of_def is_player_bus_def vlc_name_def arrived_def started_def
      vlc_player_def connect_def)

subsection \<open>The primary player and its subscription\<close>

lemma update_status_connection:
  "update_status rem changed p = (u, p', out) \<Longrightarrow> connection p' = connection p"
  by (auto simp: update_status_def Let_def split: option.splits if_splits)

lemma print_status_connection:
  "print_status p = Inr (p', out) \<Longrightarrow> connection p' = connection p"
  by (auto simp: print_status_def split: sum.splits if_splits)

lemma on_PropertiesChanged_connection:
  "on_PropertiesChanged rem interface cp ivp p = Inr (p', out) \<Longrightarrow> connection p' = connection p"
  "on_PropertiesChanged rem interface cp ivp p = Inl (e, p') \<Longrightarrow> connection p' = connection p"
proof -
  obtain u p1 out1 where h: "update_status rem (Some cp) p = (u, p1, out1)"
    by (cases "update_status rem (Some cp) p") auto
  have c1: "connection p1 = connection p" by (rule update_status_connection [OF h])
  show "on_PropertiesChanged rem interface cp ivp p = Inr (p', out) \<Longrightarrow> connection p' = connection p"
    using h c1
    by (auto simp: on_PropertiesChanged_def split: if_splits sum.splits
        dest: print_status_connection)
  show "on_PropertiesChanged rem interface cp ivp p = Inl (e, p') \<Longrightarrow> connection p' = connection p"
    using h c1
    by (auto simp: on_PropertiesChanged_def split: if_splits sum.splits)
qed

lemma MPRISPlayer_connection: "connection (fst (MPRISPlayer rem name fmt)) = None"
proof -
  obtain u p out where h: "update_status rem None (fresh_player name fmt) = (u, p, out)"
    by (cases "update_status rem None (fresh_player name fmt)") auto
  then have "connection p = None"
    using update_status_connection [OF h] by (simp add: fresh_player_def)
  with h show ?thesis by (simp add: MPRISPlayer_def)
qed

lemma set_AList_update: "set (AList.update k v al) \<subseteq> insert (k, v) (set al)"
  by (induction al) auto

lemma set_AList_delete: "set (AList.delete k al) \<subseteq> set al"
  by (induction al) auto

lemma wf_empty: "wf_manager (empty_manager fmt)"
  by (simp add: wf_manager_def empty_manager_def)

lemma wf_add:
  assumes "wf_manager m"
  shows "wf_manager (add_player rem name owner m)"
proof -
  obtain p out where h: "MPRISPlayer rem name (mgr_format_string m) = (p, out)"
    by (cases "MPRISPlayer rem name (mgr_format_string m)") auto
  then have c: "connection p = None"
    using MPRISPlayer_connection [of rem name "mgr_format_string m"] by simp
  have m': "add_player rem name owner m =
      m\<lparr>objs := objs m @ [p], players := AList.update owner (length (objs m)) (players m),
        stdout := stdout m @ out\<rparr>"
    using h by (simp add: add_player_def)
  have reg: "\<forall>(k, a) \<in> set (AList.update owner (length (objs m)) (players m)).
      a < Suc (length (objs m))"
    using assms set_AList_update [of owner "length (objs m)" "players m"]
    by (fastforce simp: wf_manager_def)
  show ?thesis
    unfolding m' using assms c reg
    by (auto simp: wf_manager_def nth_append less_Suc_eq)
qed

lemma wf_populate: "wf_manager m \<Longrightarrow> wf_manager (populate_players bus m)"
  by (induction bus arbitrary: m) (auto simp: wf_add)

lemma wf_del:
  assumes "wf_manager m" and "del_player owner m = Inr m'"
  shows "wf_manager m'"
  using assms set_AList_delete [of owner "players m"]
  by (fastforce simp: wf_manager_def del_player_def split: option.splits)

lemma wf_change:
  assumes "wf_manager m" and "change_owner old_owner new_owner m = Inr m'"
  shows "wf_manager m'"
proof -
  from assms(2) obtain temp where t: "map_of (players m) old_owner = Some temp"
    and m': "m' = m\<lparr>players := AList.update new_owner temp (AList.delete old_owner (players m))\<rparr>"
    by (auto simp: change_owner_def split: option.splits)
  from t have "(old_owner, temp) \<in> set (players m)" by (rule map_of_SomeD)
  with assms(1) have lt: "temp < length (objs m)" by (auto simp: wf_manager_def)
  have "set (AList.update new_owner temp (AList.delete old_owner (players m)))
          \<subseteq> insert (new_owner, temp) (set (players m))"
    using set_AList_update [of new_owner temp "AList.delete old_owner (players m)"]
      set_AList_delete [of old_owner "players m"] by blast
  with assms(1) lt show ?thesis
    unfolding m' by (fastforce simp: wf_manager_def)
qed

lemma wf_switch_none:
  assumes "wf_manager m" and "primary_player m = None" and "a < length (objs m)"
  shows "wf_manager (m\<lparr>objs := (objs m)[a := connect (objs m ! a)], primary_player := Some a\<rparr>)"
  using assms by (auto simp: wf_manager_def connect_def nth_list_update)

lemma wf_switch_some:
  assumes "wf_manager m" and "primary_player m = Some b" and "a < length (objs m)" and "a \<noteq> b"
    and "disconnect (objs m ! b) = Inr pb"
  shows "wf_manager (m\<lparr>objs := ((objs m)[b := pb])[a := connect (((objs m)[b := pb]) ! a)],
                        primary_player := Some a\<rparr>)"
  using assms
  by (auto simp: wf_manager_def connect_def disconnect_def nth_list_update split: option.splits)

text \<open>The primary player always has a signal match to take away.\<close>

lemma disconnect_primary:
  assumes "wf_manager m" and "primary_player m = Some b"
  shows "\<exists>pb. disconnect (objs m ! b) = Inr pb"
  using assms by (auto simp: wf_manager_def disconnect_def split: option.splits)

lemma wf_update_loop:
  assumes "wf_manager m" and "set items \<subseteq> set (players m)"
    and "update_players_loop items m = Inr m'"
  shows "wf_manager m'"
  using assms
proof (induction items)
  case Nil
  then show ?case by (auto simp: wf_manager_def)
next
  case (Cons x items)
  obtain owner a where x: "x = (owner, a)" by (cases x)
  with Cons.prems have a: "a < length (objs m)" by (auto simp: wf_manager_def)
  show ?case
  proof (cases "is_playing (objs m ! a) \<noteq> None")
    case False
    with Cons x show ?thesis by auto
  next
    case True
    show ?thesis
    proof (cases "primary_player m")
      case None
      with True Cons.prems x have "m' = m\<lparr>objs := (objs m)[a := connect (objs m ! a)],
            primary_player := Some a\<rparr>" by auto
      then show ?thesis using wf_switch_none [OF Cons.prems(1) None a] by simp
    next
      case (Some b)
      show ?thesis
      proof (cases "b = a")
        case True
        with \<open>is_playing (objs m ! a) \<noteq> None\<close> Some Cons.prems x show ?thesis by auto
      next
        case False
        obtain pb where pb: "disconnect (objs m ! b) = Inr pb"
          using disconnect_primary [OF Cons.prems(1) Some] by blast
        with False True Some Cons.prems x
        have "m' = m\<lparr>objs := ((objs m)[b := pb])[a := connect (((objs m)[b := pb]) ! a)],
                        primary_player := Some a\<rparr>"
          by (auto simp: Let_def)
        then show ?thesis
          using wf_switch_some [OF Cons.prems(1) Some a _ pb] False by simp
      qed
    qed
  qed
qed

lemma wf_update: "wf_manager m \<Longrightarrow> update_players m = Inr m' \<Longrightarrow> wf_manager m'"
  unfolding update_players_def by (rule wf_update_loop) auto

lemma wf_signal:
  assumes "wf_manager m" and "a < length (objs m)"
  shows "wf_manager (deliver_PropertiesChanged a rem interface cp ivp m)"
proof (cases "on_PropertiesChanged rem interface cp ivp (objs m ! a)")
  case (Inl ep)
  obtain e p where "ep = (e, p)" by (cases ep)
  with Inl have c: "connection p = connection (objs m ! a)"
    and d: "deliver_PropertiesChanged a rem interface cp ivp m = m\<lparr>objs := (objs m)[a := p]\<rparr>"
    by (auto simp: deliver_PropertiesChanged_def dest: on_PropertiesChanged_connection)
  show ?thesis unfolding d using assms c by (auto simp: wf_manager_def nth_list_update)
next
  case (Inr po)
  obtain p out where "po = (p, out)" by (cases po)
  with Inr have c: "connection p = connection (objs m ! a)"
    and d: "deliver_PropertiesChanged a rem interface cp ivp m
              = m\<lparr>objs := (objs m)[a := p], stdout := stdout m @ out\<rparr>"
    by (auto simp: deliver_PropertiesChanged_def dest: on_PropertiesChanged_connection)
  show ?thesis unfolding d using assms c by (auto simp: wf_manager_def nth_list_update)
qed

lemma reachable_wf: "reachable m \<Longrightarrow> wf_manager m"
  by (induction rule: reachable.induct)
     (auto intro: wf_empty wf_populate wf_add wf_del wf_change wf_update wf_signal)

text \<open>
  The constructor and the handler of \<^verbatim>\<open>NameOwnerChanged\<close> stay within the
  reachable states, whether the handler returns or raises.
\<close>

lemma MPRISManager_reachable: "MPRISManager bus fmt = Inr m \<Longrightarrow> reachable m"
  unfolding MPRISManager_def
  by (rule r_update [OF r_populate [OF r_init]])

lemma on_NameOwnerChanged_reachable:
  assumes r: "reachable m"
    and h: "on_NameOwnerChanged rem name old_owner new_owner m = Inr m' \<or>
            on_NameOwnerChanged rem name old_owner new_owner m = Inl (e, m')"
  shows "reachable m'"
proof (cases "is_player_bus name")
  case False
  with h r show ?thesis by (auto simp: on_NameOwnerChanged_def)
next
  case bus: True
  let ?step = "if old_owner = [] \<and> new_owner \<noteq> []
               then Inr (add_player rem name old_owner m)
               else if new_owner = [] \<and> old_owner \<noteq> []
                    then del_player old_owner m
                    else change_owner old_owner new_owner m"
  show ?thesis
  proof (cases ?step)
    case (Inl err)
    with bus h have "m' = m" by (auto simp: on_NameOwnerChanged_def)
    with r show ?thesis by simp
  next
    case step: (Inr m1)
    have r1: "reachable m1"
    proof (cases "old_owner = [] \<and> new_owner \<noteq> []")
      case True
      from step have "m1 = add_player rem name old_owner m"
        by (simp only: if_P [OF True] sum.inject)
      then show ?thesis using r_add [OF r] by simp
    next
      case arrival: False
      show ?thesis
      proof (cases "new_owner = [] \<and> old_owner \<noteq> []")
        case True
        from step have "del_player old_owner m = Inr m1"
          by (simp only: if_not_P [OF arrival] if_P [OF True])
        then show ?thesis by (rule r_del [OF r])
      next
        case False
        from step have "change_owner old_owner new_owner m = Inr m1"
          by (simp only: if_not_P [OF arrival] if_not_P [OF False])
        then show ?thesis by (rule r_change [OF r])
      qed
    qed
    show ?thesis
    proof (cases "update_players m1")
      case (Inl err)
      with bus step h have "m' = m1" by (auto simp: on_NameOwnerChanged_def)
      with r1 show ?thesis by simp
    next
      case (Inr m2)
      with bus step h have "m' = m2" by (auto simp: on_NameOwnerChanged_def)
      with r_update [OF r1 Inr] show ?thesis by simp
    qed
  qed
qed

lemma reachable_departed: "reachable departed"
  using on_NameOwnerChanged_reachable [OF MPRISManager_reachable [OF started_eq]] departed_eq
  by blast

text \<open>
  Claim C1, as amended.  In every reachable state the primary player is the
  \<^verbatim>\<open>NonePlayer\<close> or an object of the store, the objects with an installed
  signal match are exactly the primary player (so at most one object is
  subscribed), and every registry entry refers to an object of the store.
  \<^verbatim>\<open>del_player\<close> removes the registry entry and nothing else: the primary
  player and the subscriptions are as before, so the primary player can be an
  object that is no longer registered.
\<close>

theorem subscription_invariant:
  assumes "reachable m"
  shows "(\<forall>a < length (objs m).
            (connection (objs m ! a) = Some True) = (primary_player m = Some a)) \<and>
         (\<forall>a. primary_player m = Some a \<longrightarrow> a < length (objs m)) \<and>
         (\<forall>(k, a) \<in> set (players m). a < length (objs m)) \<and>
         (\<forall>owner m'. del_player owner m = Inr m' \<longrightarrow>
            players m' = AList.delete owner (players m) \<and>
            primary_player m' = primary_player m \<and> objs m' = objs m)"
  using reachable_wf [OF assms]
  by (auto simp: wf_manager_def del_player_def split: option.splits)

theorem subscription_invariant_witness:
  "reachable departed \<and> primary_player departed = Some 0 \<and> 0 < length (objs departed) \<and>
   connection (objs departed ! 0) = Some True"
  using subscription_invariant [OF reachable_departed] reachable_departed
  by (simp add: departed_def started_def)

text \<open>
  The claim as it stands fails after the departure of the primary player's
  owner when no other player is active: the registry is empty, yet the primary
  player still is the departed object, and its signal match is still installed.
\<close>

theorem subscription_invariant_counterexample:
  "MPRISManager [(vlc_name, '':1.7'', vlc_remote)] default_format = Inr started \<and>
   primary_player started = Some 0 \<and> players started = [('':1.7'', 0)] \<and>
   on_NameOwnerChanged dead_remote vlc_name '':1.7'' '''' started = Inr departed \<and>
   players departed = [] \<and> primary_player departed = Some 0 \<and>
   connection (objs departed ! 0) = Some True \<and>
   stdout departed = [''NO ACTIVE PLAYERS'']"
  using started_eq departed_eq
  by (simp add: departed_def started_def)

subsection \<open>What the re-selection pass selects\<close>

lemma two_peers_eq:
  "populate_players
     [(mpv_name, '':1.1'', mpv_remote),
      (vlc_name, '':1.2'', vlc_remote\<lparr>get_PlaybackStatus := Some ''Paused''\<rparr>)]
     (empty_manager default_format)
   = two_peers"
  by (simp add: empty_manager_def add_player_def MPRISPlayer_def update_status_def
      fresh_player_def refresh_metadata_def vlc_remote_def mpv_remote_def playback_of_def
      is_player_bus_def vlc_name_def mpv_name_def two_peers_def vlc_player_def mpv_player_def)

lemma reachable_two_peers: "reachable two_peers"
  using r_populate [OF r_init, of _ default_format] two_peers_eq by metis

text \<open>
  Claim C4.  Let \<open>(owner, a)\<close> be the first entry of the registry, in
  insertion order, whose player has a status other than unknown.  Then
  \<^verbatim>\<open>update_players\<close> does nothing when that player is the primary one already;
  otherwise it takes the signal match of the old primary player away (nothing
  to do for the \<^verbatim>\<open>NonePlayer\<close>), makes \<open>a\<close> the primary player and installs
  its signal match.  The only failure is an old primary player that never had
  a signal match, which no reachable state has: there the pass returns, with
  \<open>a\<close> as the primary player.
\<close>

theorem update_players_first_active:
  assumes "players m = pre @ (owner, a) # post"
    and "\<forall>(k, b) \<in> set pre. is_playing (objs m ! b) = None"
    and "is_playing (objs m ! a) \<noteq> None"
  shows "update_players m =
           (if primary_player m = Some a then Inr m
            else case primary_player m of
                   None \<Rightarrow>
                     Inr (m\<lparr>objs := (objs m)[a := (objs m ! a)\<lparr>connection := Some True\<rparr>],
                            primary_player := Some a\<rparr>)
                 | Some b \<Rightarrow>
                     if connection (objs m ! b) = None then Inl AttributeError
                     else Inr (m\<lparr>objs := (objs m)
                                  [b := (objs m ! b)\<lparr>connection := Some False\<rparr>,
                                   a := (objs m ! a)\<lparr>connection := Some True\<rparr>],
                                primary_player := Some a\<rparr>)) \<and>
         (reachable m \<longrightarrow>
            (\<exists>m'. update_players m = Inr m' \<and> primary_player m' = Some a \<and>
                  players m' = players m \<and> stdout m' = stdout m))"
proof -
  have "update_players m = update_players_loop ((owner, a) # post) m"
    using assms(1,2) by (simp add: update_players_def update_players_loop_skip)
  then have eq: "update_players m =
           (if primary_player m = Some a then Inr m
            else case primary_player m of
                   None \<Rightarrow>
                     Inr (m\<lparr>objs := (objs m)[a := (objs m ! a)\<lparr>connection := Some True\<rparr>],
                            primary_player := Some a\<rparr>)
                 | Some b \<Rightarrow>
                     if connection (objs m ! b) = None then Inl AttributeError
                     else Inr (m\<lparr>objs := (objs m)
                                  [b := (objs m ! b)\<lparr>connection := Some False\<rparr>,
                                   a := (objs m ! a)\<lparr>connection := Some True\<rparr>],
                                primary_player := Some a\<rparr>))"
    using assms(3)
    by (auto simp: connect_def disconnect_def Let_def split: option.splits)
  have "\<exists>m'. update_players m = Inr m' \<and> primary_player m' = Some a \<and>
             players m' = players m \<and> stdout m' = stdout m"
    if r: "reachable m"
  proof (cases "primary_player m")
    case None
    with eq show ?thesis by simp
  next
    case (Some b)
    from reachable_wf [OF r] Some have "connection (objs m ! b) \<noteq> None"
      by (auto simp: wf_manager_def)
    with eq Some show ?thesis by (cases "b = a") simp_all
  qed
  with eq show ?thesis by blast
qed

text \<open>The scenario of the claim: the second of the two peers becomes primary.\<close>

theorem update_players_first_active_witness:
  "reachable two_peers \<and>
   is_playing (objs two_peers ! 0) = None \<and>
   is_playing (objs two_peers ! 1) = Some False \<and>
   update_players two_peers
     = Inr (two_peers
             \<lparr>objs := [mpv_player,
                       vlc_player\<lparr>is_playing := Some False, connection := Some True\<rparr>],
              primary_player := Some 1\<rparr>)"
  using update_players_first_active [of two_peers "[('':1.1'', 0)]" "'':1.2''" 1 "[]"]
    reachable_two_peers
  by (simp add: two_peers_def mpv_player_def)

end
